theory Spec2Isabelle
  imports Main "HOL-Library.Sublist"
begin

section \<open>Values and failures\<close>

text \<open>
  The program is a command-line client for a GraphQL endpoint (\<^verbatim>\<open>src/index.js\<close>; the file
  \<^verbatim>\<open>src/unnamed/part_000\<close> is an older revision of the same code). What it receives from
  the server is parsed JSON, so the values it inspects are JSON values. A property that is
  absent reads as \<^verbatim>\<open>undefined\<close>; that is \<open>None\<close> of an \<open>option\<close> below.
\<close>

datatype json =
    JNull
  | JBool bool
  | JNum int
  | JStr string
  | JArr "json list"
  | JObj "(string \<times> json) list"

text \<open>
  The \<^verbatim>\<open>type\<close> object of an introspected field, as the selection
  \<^verbatim>\<open>type { name ofType { name ofType { ... } } }\<close> shapes it: a \<^verbatim>\<open>name\<close> (a string, or null)
  and an \<^verbatim>\<open>ofType\<close> (another such object; null, or not selected, otherwise).
\<close>

datatype type_ref = TypeRef "string option" "type_ref option"

text \<open>
  Every \<^verbatim>\<open>throw\<close> of the source, and every exception of the runtime that the modelled code
  can raise, is a constructor:
  \<^item> \<open>HTTPError\<close>, \<open>QueryError\<close>: \<^verbatim>\<open>new Error(`HTTPError`)\<close> and \<^verbatim>\<open>new Error(`QueryError`)\<close>
    in \<^verbatim>\<open>runQuery\<close>;
  \<^item> \<open>CannotGetType t\<close>: \<^verbatim>\<open>new Error(`Cannot get type for ${JSON.stringify(type)}`)\<close>,
    carrying the object it was raised for;
  \<^item> \<open>FailedToInspect k\<close>: \<^verbatim>\<open>new Error(`Failed to inspect ${path.join()}`)\<close>;
  \<^item> \<open>UnknownOperation op\<close>, \<open>UnknownQueryType\<close>: the usage errors of \<^verbatim>\<open>main\<close>;
  \<^item> \<open>TypeError\<close>: reading a property of \<^verbatim>\<open>null\<close> or \<^verbatim>\<open>undefined\<close>, or iterating a value
    that is not iterable; \<open>ReferenceError\<close>: evaluating an identifier that no scope binds;
    \<open>SyntaxError\<close>: \<^verbatim>\<open>response.json()\<close> on a body that is not JSON;
  \<^item> \<open>FetchError\<close>: \<^verbatim>\<open>fetch\<close> rejects, so that there is no response; \<open>Cancelled\<close>: the user
    cancels a prompt, so that its \<^verbatim>\<open>run()\<close> rejects.
\<close>

datatype error =
    HTTPError
  | QueryError
  | CannotGetType type_ref
  | FailedToInspect string
  | UnknownOperation string
  | UnknownQueryType
  | TypeError
  | ReferenceError
  | SyntaxError
  | FetchError
  | Cancelled

section \<open>The query runner: \<open>runQuery\<close>\<close>

text \<open>
  \<^verbatim>\<open>
  async function runQuery(query, variables, silent) {
      ...
      const response = await fetch(`https://${config.hostname}.herokuapp.com/apollo`, {...});
      if (!response.ok) {
          console.error(color.red(`HTTP Error ${response.status} occured. Message:`));
          console.error(await response.text());
          throw new Error(`HTTPError`);
      }
      const result = await response.json();
      const duration = Date.now() - start;
      if (result.errors) {
          console.error(color.red(`Errors occured running the query:`));
          for (const error of result.errors) {
              console.error(color.red(` - ${error.message}`));
          }
          console.log(`\n\n`);
          throw new Error(`QueryError`);
      }
      const tracing = result.extensions?.tracing;
      if (!silent) { ... console output ... }
      return result.data;
  }
  \<close>
  The answer of the server is the input of the model: either \<^verbatim>\<open>fetch\<close> rejects, or there
  is a response with a status, a body text and the value that parsing the body as JSON
  gives (\<open>None\<close> when the text is not JSON). \<^verbatim>\<open>response.ok\<close> is true for the statuses 200
  to 299.

  Console output is not part of the model. What is kept of a console call is the
  evaluation of its arguments where that can raise: \<^verbatim>\<open>error.message\<close> in the loop over the
  errors. Reading the body is an observable step: next to the result, the model returns
  the body reads it made, in order. After the test of \<^verbatim>\<open>result.errors\<close> nothing raises in
  this revision (\<^verbatim>\<open>result\<close> is not null there, and \<^verbatim>\<open>?.\<close> guards \<^verbatim>\<open>extensions\<close>), so the
  parameters \<^verbatim>\<open>query\<close>, \<^verbatim>\<open>variables\<close> and \<^verbatim>\<open>silent\<close> do not influence what is returned or
  raised for a given answer; they are left out. The older revision reads
  \<^verbatim>\<open>result.extensions.tracing\<close> unguarded; it differs on the success path only.
\<close>

datatype response =
  Response (status: nat) (body_text: string) (body_json: "json option")

definition ok :: "response \<Rightarrow> bool" where
  "ok r = (200 \<le> status r \<and> status r < 300)"

datatype transport = Rejected | Responded response

datatype body_read = ReadText | ReadJson

text \<open>
  \<^verbatim>\<open>v.k\<close> for the property names read here (\<^verbatim>\<open>errors\<close>, \<^verbatim>\<open>message\<close>, \<^verbatim>\<open>data\<close>): it raises on
  null, looks the key up in an object, and is \<^verbatim>\<open>undefined\<close> on a number, a boolean, a string
  or an array, none of which has a property of these names.
\<close>

fun get_prop :: "json \<Rightarrow> string \<Rightarrow> error + json option" where
  "get_prop JNull k = Inl TypeError"
| "get_prop (JObj kvs) k = Inr (map_of kvs k)"
| "get_prop v k = Inr None"

text \<open>JavaScript truthiness of a JSON value: arrays and objects are truthy, also when empty.\<close>

fun truthy :: "json \<Rightarrow> bool" where
  "truthy JNull = False"
| "truthy (JBool b) = b"
| "truthy (JNum n) = (n \<noteq> 0)"
| "truthy (JStr s) = (s \<noteq> [])"
| "truthy (JArr vs) = True"
| "truthy (JObj kvs) = True"

text \<open>
  The loop \<^verbatim>\<open>for (const error of result.errors) console.error(` - ${error.message}`)\<close>:
  \<open>print_errors\<close> is the loop over the entries of an array, \<open>for_of_errors\<close> the iteration
  protocol in front of it (an array yields its entries, a string its characters, whose
  \<^verbatim>\<open>message\<close> is \<^verbatim>\<open>undefined\<close>; no other truthy JSON value is iterable).
\<close>

fun print_errors :: "json list \<Rightarrow> error + unit" where
  "print_errors [] = Inr ()"
| "print_errors (e # es) =
     (case get_prop e ''message'' of
        Inl err \<Rightarrow> Inl err
      | Inr message \<Rightarrow> print_errors es)"

fun for_of_errors :: "json \<Rightarrow> error + unit" where
  "for_of_errors (JArr es) = print_errors es"
| "for_of_errors (JStr s) = Inr ()"
| "for_of_errors v = Inl TypeError"

text \<open>What follows \<^verbatim>\<open>const result = await response.json()\<close>.\<close>

definition check_result :: "json \<Rightarrow> error + json option" where
  "check_result result =
     (case get_prop result ''errors'' of
        Inl err \<Rightarrow> Inl err
      | Inr None \<Rightarrow> get_prop result ''data''
      | Inr (Some errors) \<Rightarrow>
          if truthy errors
          then (case for_of_errors errors of
                  Inl err \<Rightarrow> Inl err
                | Inr u \<Rightarrow> Inl QueryError)
          else get_prop result ''data'')"

definition runQuery :: "transport \<Rightarrow> (error + json option) \<times> body_read list" where
  "runQuery t =
     (case t of
        Rejected \<Rightarrow> (Inl FetchError, [])
      | Responded r \<Rightarrow>
          if \<not> ok r then (Inl HTTPError, [ReadText])
          else (case body_json r of
                  None \<Rightarrow> (Inl SyntaxError, [ReadJson])
                | Some result \<Rightarrow> (check_result result, [ReadJson])))"

section \<open>Introspection: \<open>getTypeName\<close>\<close>

text \<open>
  \<^verbatim>\<open>
  function getTypeName(type) {
      if (type.name)
          return type.name;
      if (!type.ofType)
          throw new Error(`Cannot get type for ${JSON.stringify(type)}`);
      return getTypeName(type.ofType);
  }
  \<close>
  A name is truthy when it is a non-empty string.
\<close>

fun getTypeName :: "type_ref \<Rightarrow> error + string" where
  "getTypeName (TypeRef name ofType) =
     (if name \<noteq> None \<and> name \<noteq> Some []
      then Inr (case name of Some n \<Rightarrow> n | None \<Rightarrow> [])
      else (case ofType of
              None \<Rightarrow> Inl (CannotGetType (TypeRef name ofType))
            | Some inner \<Rightarrow> getTypeName inner))"

text \<open>
  The types of a GraphQL schema, and what a server answers for one of them under the
  selection that \<^verbatim>\<open>introspectFields\<close> sends,
  \<^verbatim>\<open>type { name ofType { name ofType { name ofType { name ofType { name }}}}}\<close>.
  This part is the environment, not code of the repository; it follows the introspection
  rules of GraphQL: a \<^verbatim>\<open>LIST\<close> or \<^verbatim>\<open>NON_NULL\<close> wrapper has the name null and its wrapped type in
  \<^verbatim>\<open>ofType\<close>, a named type has its name and \<^verbatim>\<open>ofType\<close> null. \<open>select_type k t\<close> is the answer
  for \<open>t\<close> under a selection with \<open>k\<close> nested \<^verbatim>\<open>ofType\<close>: when \<open>k\<close> is used up, \<^verbatim>\<open>ofType\<close> is not
  selected and so absent from the object. The query of the source nests \<^verbatim>\<open>ofType\<close> four
  times.
\<close>

datatype gql_type = Named string | ListOf gql_type | NonNull gql_type

fun select_type :: "nat \<Rightarrow> gql_type \<Rightarrow> type_ref" where
  "select_type k (Named n) = TypeRef (Some n) None"
| "select_type 0 (ListOf t) = TypeRef None None"
| "select_type (Suc k) (ListOf t) = TypeRef None (Some (select_type k t))"
| "select_type 0 (NonNull t) = TypeRef None None"
| "select_type (Suc k) (NonNull t) = TypeRef None (Some (select_type k t))"

definition ofType_depth :: nat where
  "ofType_depth = 4"

fun wrappers :: "gql_type \<Rightarrow> nat" where
  "wrappers (Named n) = 0"
| "wrappers (ListOf t) = Suc (wrappers t)"
| "wrappers (NonNull t) = Suc (wrappers t)"

fun innermost :: "gql_type \<Rightarrow> string" where
  "innermost (Named n) = n"
| "innermost (ListOf t) = innermost t"
| "innermost (NonNull t) = innermost t"

section \<open>Introspection: \<open>introspectFields\<close>\<close>

text \<open>
  \<^verbatim>\<open>
  const introspectionFieldsCache = {};

  async function introspectFields(path) {
      if (introspectionFieldsCache[path.join()]?.fields)
          return introspectionFieldsCache[path.join()].fields;
      let type = "Query";
      if (path.length > 0) {
          const prev = path.slice(0, -1);
          await introspectFields(prev);
          const entry = introspectionFieldsCache[path.join()];
          if (!entry)
              throw new Error(`Failed to inspect ${path.join()}`);
          type = entry.type;
      }
      let result = await runQuery(
          `query {  __type(name: "${type}") { name fields { name type { ... }}}}`,
          undefined, true
      );
      const fields = [];
      for (const field of result.__type?.fields ?? []) {
          const fieldPath = [...path, field.name].join();
          introspectionFieldsCache[fieldPath] = { type: getTypeName(field.type) };
          fields.push(field.name);
      }
      introspectionFieldsCache[path.join()] = { fields, type };
      return fields;
  }
  \<close>
  The cache is the one piece of state: a map from the joined path to an entry
  \<^verbatim>\<open>{ fields, type }\<close> or \<^verbatim>\<open>{ type }\<close>. The state of the model is the cache together with the
  log of the introspection requests sent so far (the type name each one asked for), so
  that a call that sends no request is one that leaves the log as it was. A field list is
  an array, which is truthy also when empty, so the test in the first line asks whether
  the entry has a field list at all.

  What \<^verbatim>\<open>runQuery\<close> gives for an introspection request is typed as the selection shapes
  it: it raises (\<open>Raises\<close>), or returns no data object, so that \<^verbatim>\<open>result.__type\<close> raises
  (\<open>NoData\<close>), or a data object whose \<^verbatim>\<open>__type\<close> is null (\<open>NoType\<close>, an unknown type name),
  or a type whose \<^verbatim>\<open>fields\<close> is null (\<open>NoFields\<close>, a scalar), or a list of fields. The
  server is a function of the requests made so far and of the type asked for: its answers
  may change from one request to the next. The keys of the cache are read and written as
  own properties of the cache object.
\<close>

datatype 'f answer = Raises error | NoData | NoType | NoFields | Fields "'f list"

datatype field = Field (field_name: string) (field_type: type_ref)

datatype cache_entry = Entry (entry_fields: "string list option") (entry_type: string)

type_synonym fields_cache = "string \<Rightarrow> cache_entry option"

datatype state = State (cache: fields_cache) (requests: "string list")

type_synonym server = "string list \<Rightarrow> string \<Rightarrow> field answer"

text \<open>\<^verbatim>\<open>path.join()\<close>: the elements, separated by commas.\<close>

fun join :: "string list \<Rightarrow> string" where
  "join [] = []"
| "join [x] = x"
| "join (x # y # ys) = x @ '','' @ join (y # ys)"

text \<open>\<^verbatim>\<open>introspectionFieldsCache[key]?.fields\<close>\<close>

definition cached_fields :: "fields_cache \<Rightarrow> string \<Rightarrow> string list option" where
  "cached_fields c k = (case c k of None \<Rightarrow> None | Some entry \<Rightarrow> entry_fields entry)"

text \<open>
  The loop over the fields of the answer. An entry is written only after \<open>getTypeName\<close>
  has returned: when it raises, the entries of the earlier fields stay written.
\<close>

fun addFields ::
  "string list \<Rightarrow> field list \<Rightarrow> string list \<Rightarrow> fields_cache \<Rightarrow>
   (error + string list) \<times> fields_cache"
where
  "addFields path [] fields c = (Inr fields, c)"
| "addFields path (f # fs) fields c =
     (case getTypeName (field_type f) of
        Inl err \<Rightarrow> (Inl err, c)
      | Inr t \<Rightarrow>
          addFields path fs (fields @ [field_name f])
            (c(join (path @ [field_name f]) \<mapsto> Entry None t)))"

text \<open>From the call of \<^verbatim>\<open>runQuery\<close> to the end of the function.\<close>

definition fetchFields ::
  "server \<Rightarrow> string list \<Rightarrow> string \<Rightarrow> state \<Rightarrow> (error + string list) \<times> state"
where
  "fetchFields srv path type s =
     (let asked = requests s @ [type] in
      case srv (requests s) type of
        Raises err \<Rightarrow> (Inl err, State (cache s) asked)
      | NoData \<Rightarrow> (Inl TypeError, State (cache s) asked)
      | NoType \<Rightarrow> (Inr [], State ((cache s)(join path \<mapsto> Entry (Some []) type)) asked)
      | NoFields \<Rightarrow> (Inr [], State ((cache s)(join path \<mapsto> Entry (Some []) type)) asked)
      | Fields fs \<Rightarrow>
          (case addFields path fs [] (cache s) of
             (Inl err, c) \<Rightarrow> (Inl err, State c asked)
           | (Inr fields, c) \<Rightarrow>
               (Inr fields, State (c(join path \<mapsto> Entry (Some fields) type)) asked)))"

function introspectFields ::
  "server \<Rightarrow> string list \<Rightarrow> state \<Rightarrow> (error + string list) \<times> state"
where
  "introspectFields srv path s =
     (case cached_fields (cache s) (join path) of
        Some fields \<Rightarrow> (Inr fields, s)
      | None \<Rightarrow>
          if path \<noteq> []
          then (case introspectFields srv (butlast path) s of
                  (Inl err, s1) \<Rightarrow> (Inl err, s1)
                | (Inr prev_fields, s1) \<Rightarrow>
                    (case cache s1 (join path) of
                       None \<Rightarrow> (Inl (FailedToInspect (join path)), s1)
                     | Some entry \<Rightarrow> fetchFields srv path (entry_type entry) s1))
          else fetchFields srv path ''Query'' s)"
  by pat_completeness auto
termination
  by (relation "measure (\<lambda>(srv, path, s). length path)") auto

declare introspectFields.simps [simp del]

text \<open>A server for the examples: \<^verbatim>\<open>Query { user: User }\<close>, \<^verbatim>\<open>User { id: ID }\<close>.\<close>

definition example_schema :: server where
  "example_schema asked type =
     (if type = ''Query''
      then Fields [Field ''user'' (TypeRef None (Some (TypeRef (Some ''User'') None)))]
      else if type = ''User'' then Fields [Field ''id'' (TypeRef (Some ''ID'') None)]
      else NoType)"

section \<open>Introspection: \<open>introspectMutations\<close>\<close>

text \<open>
  \<^verbatim>\<open>
  let introspectionMuationCache = null;

  async function introspectMutations() {
      if (introspectionMuationCache)
          return introspectionMuationCache;
      const result = await runQuery(
          `query {  __type(name: "Mutation") { name fields { name type { ... } args { name } } }}`,
          undefined, true
      );
      introspectionMuationCache = result.__type.fields.map(it => ({ name: it.name, args: it.args }));
  }
  \<close>
  The function ends after the assignment: a call that fills the cache returns
  \<^verbatim>\<open>undefined\<close>. The model takes the answer the server would give and the cache, and
  returns the result (\<open>Inr None\<close> is \<^verbatim>\<open>undefined\<close>), the cache afterwards and the requests
  sent. Here nothing guards \<^verbatim>\<open>result.__type.fields.map\<close>: a missing data object, type or
  field list raises a \<open>TypeError\<close>. Both revisions have the same body.
\<close>

datatype arg = Arg (arg_name: string)

datatype mutation = Mutation (mutation_name: string) (mutation_args: "arg list")

definition introspectMutations ::
  "mutation answer \<Rightarrow> mutation list option \<Rightarrow>
   (error + mutation list option) \<times> mutation list option \<times> string list"
where
  "introspectMutations srv introspectionMuationCache =
     (case introspectionMuationCache of
        Some cached \<Rightarrow> (Inr (Some cached), introspectionMuationCache, [])
      | None \<Rightarrow>
          (case srv of
             Raises err \<Rightarrow> (Inl err, None, [''Mutation''])
           | NoData \<Rightarrow> (Inl TypeError, None, [''Mutation''])
           | NoType \<Rightarrow> (Inl TypeError, None, [''Mutation''])
           | NoFields \<Rightarrow> (Inl TypeError, None, [''Mutation''])
           | Fields fs \<Rightarrow> (Inr None, Some fs, [''Mutation''])))"

section \<open>Serialising an operation tree: \<open>queryTreeToString\<close>\<close>

text \<open>
  \<^verbatim>\<open>
  function queryTreeToString(query) {
      let queryString = `query {\n`;
      function addQuery(query, depth) {
          for (const [key, { fields }] of Object.entries(query)) {
              queryString += " ".repeat(depth) + key;
              if (Object.keys(fields).length) {
                  queryString += ` {\n`;
                  addQuery(fields, depth + 2);
                  queryString += " ".repeat(depth) + `}\n`;
              } else queryString += `\n`;
          }
      }
      addQuery(query, 2);
      queryString += `}`;
      return queryString;
  }
  \<close>
  An operation tree is a JavaScript object that maps a field name to \<^verbatim>\<open>{ fields: tree }\<close>.
  It is modelled by the sequence that \<^verbatim>\<open>Object.entries\<close> enumerates: a list of pairs of a
  key and a node. \<^verbatim>\<open>addQuery\<close> only ever appends to \<^verbatim>\<open>queryString\<close>, so the model returns
  the text that one call appends. Both revisions have the same body.
\<close>

abbreviation NL :: string where
  "NL \<equiv> [CHR 0x0A]"

datatype node = Node "(string \<times> node) list"

type_synonym OperationTree = "(string \<times> node) list"

fun addQuery :: "OperationTree \<Rightarrow> nat \<Rightarrow> string" where
  "addQuery [] depth = []"
| "addQuery ((key, Node fields) # rest) depth =
     replicate depth CHR '' '' @ key @
     (if fields \<noteq> []
      then '' {'' @ NL @ addQuery fields (depth + 2) @ replicate depth CHR '' '' @ ''}'' @ NL
      else NL)
     @ addQuery rest depth"

definition queryTreeToString :: "OperationTree \<Rightarrow> string" where
  "queryTreeToString query = ''query {'' @ NL @ addQuery query 2 @ ''}''"

section \<open>Prompts\<close>

text \<open>
  The prompts of the terminal library are the other input of the program. A prompt that
  is shown is recorded, in order, with its choices (for a snippet: its template and its
  fields); what the user answers is a function of what is shown, \<open>None\<close> when the user
  cancels.
\<close>

datatype prompt =
    Select "string list"
  | MultiSelect "string list"
  | Snippet string "string list"

datatype user =
  User (select: "string list \<Rightarrow> string option")
       (multiselect: "string list \<Rightarrow> string list option")
       (snippet: "string \<Rightarrow> string list \<Rightarrow> string option")

section \<open>The mutation builder: \<open>buildMutation\<close>\<close>

text \<open>
  \<^verbatim>\<open>
  async function buildMutation() {
      const mutations = await introspectMutations();
      const mutationName = await (new Select({ choices: mutations.map(it => it.name) })).run();
      const mutation = mutations.find(it => it.name === mutationName);

      let chosenArgs;
      if (mutation.args > 2) {
          await (new MultiSelect({ choices: mutation.args.map(it => it.name) })).run();
      } else {
          chosenArgs = mutation.args.map(it => it.name);
      }

      let mutationString = `mutation {\n  ${mutation.name}(\n`;
      for (const arg of chosenArgs) {
          mutationString += `    ${arg}: \${${arg}}\n`;
      }
      mutationString += `  )\n}`;

      mutationString = (await (new Snippet({ required: true, template: mutationString,
          fields: chosenArgs.map(it => ({ name: it })) })).run()).result;

      return executeMutation(mutationString);
  }
  \<close>
  Both revisions have the same body.

  The test \<^verbatim>\<open>mutation.args > 2\<close> compares an array with a number. JavaScript turns the
  array into a primitive first, which is its \<^verbatim>\<open>toString()\<close>: the string forms of its
  entries joined by commas; an entry is a plain object \<^verbatim>\<open>{ name }\<close>, whose string form is
  \<^verbatim>\<open>[object Object]\<close>. The string is then turned into a number, and a comparison with
  \<^verbatim>\<open>NaN\<close> is false. Of the conversion of a string to a number the model has the empty
  string (0), the strings of decimal digits (their value) and \<^verbatim>\<open>NaN\<close> (\<open>None\<close>) for the
  rest; the other forms of a numeric literal (white space around it, a sign, a fraction,
  an exponent, another radix, \<^verbatim>\<open>Infinity\<close>) are left out: a join of \<^verbatim>\<open>[object Object]\<close> is
  empty or starts with a bracket, which no numeric literal does.
\<close>

definition array_to_string :: "arg list \<Rightarrow> string" where
  "array_to_string args = join (map (\<lambda>a. ''[object Object]'') args)"

definition is_digit :: "char \<Rightarrow> bool" where
  "is_digit c = (c \<in> set ''0123456789'')"

definition decimal :: "string \<Rightarrow> nat" where
  "decimal s = fold (\<lambda>c n. 10 * n + (of_char c - 48)) s 0"

definition string_to_number :: "string \<Rightarrow> nat option" where
  "string_to_number s =
     (if s = [] then Some 0
      else if list_all is_digit s then Some (decimal s)
      else None)"

definition array_greater :: "arg list \<Rightarrow> nat \<Rightarrow> bool" where
  "array_greater args n =
     (case string_to_number (array_to_string args) of
        None \<Rightarrow> False
      | Some v \<Rightarrow> n < v)"

text \<open>The text of the template, for the name of the mutation and the chosen arguments.\<close>

definition template :: "string \<Rightarrow> string list \<Rightarrow> string" where
  "template name chosenArgs =
     ''mutation {'' @ NL @ ''  '' @ name @ ''('' @ NL @
     concat (map (\<lambda>arg. ''    '' @ arg @ '': ${'' @ arg @ ''}'' @ NL) chosenArgs) @
     ''  )'' @ NL @ ''}''"

text \<open>
  From \<^verbatim>\<open>let mutationString\<close> on. \<^verbatim>\<open>chosenArgs\<close> is \<^verbatim>\<open>undefined\<close> (\<open>None\<close>) when the first
  branch of the test was taken, and the loop over it raises. The result is the text that
  is handed to \<^verbatim>\<open>executeMutation\<close>.
\<close>

definition fill_template ::
  "user \<Rightarrow> prompt list \<Rightarrow> string \<Rightarrow> string list option \<Rightarrow> (error + string) \<times> prompt list"
where
  "fill_template u shown name chosenArgs =
     (case chosenArgs of
        None \<Rightarrow> (Inl TypeError, shown)
      | Some chosen \<Rightarrow>
          (case snippet u (template name chosen) chosen of
             None \<Rightarrow> (Inl Cancelled, shown @ [Snippet (template name chosen) chosen])
           | Some result \<Rightarrow> (Inr result, shown @ [Snippet (template name chosen) chosen])))"

text \<open>
  \<open>mutations\<close> is what \<^verbatim>\<open>introspectMutations()\<close> returned, \<open>None\<close> for \<^verbatim>\<open>undefined\<close>, on which
  \<^verbatim>\<open>mutations.map\<close> raises; \<^verbatim>\<open>mutation.args\<close> raises when \<^verbatim>\<open>find\<close> found nothing.
\<close>

definition buildMutation :: "mutation list option \<Rightarrow> user \<Rightarrow> (error + string) \<times> prompt list" where
  "buildMutation mutations u =
     (case mutations of
        None \<Rightarrow> (Inl TypeError, [])
      | Some ms \<Rightarrow>
          (case select u (map mutation_name ms) of
             None \<Rightarrow> (Inl Cancelled, [Select (map mutation_name ms)])
           | Some mutationName \<Rightarrow>
               (case find (\<lambda>it. mutation_name it = mutationName) ms of
                  None \<Rightarrow> (Inl TypeError, [Select (map mutation_name ms)])
                | Some mutation \<Rightarrow>
                    if array_greater (mutation_args mutation) 2
                    then (case multiselect u (map arg_name (mutation_args mutation)) of
                            None \<Rightarrow>
                              (Inl Cancelled,
                               [Select (map mutation_name ms),
                                MultiSelect (map arg_name (mutation_args mutation))])
                          | Some chosen \<Rightarrow>
                              fill_template u
                                [Select (map mutation_name ms),
                                 MultiSelect (map arg_name (mutation_args mutation))]
                                (mutation_name mutation) None)
                    else fill_template u [Select (map mutation_name ms)]
                           (mutation_name mutation)
                           (Some (map arg_name (mutation_args mutation))))))"

text \<open>A user for the examples: picks the given name, ticks every choice, leaves a template as it is.\<close>

definition always :: "string \<Rightarrow> user" where
  "always pick = User (\<lambda>choices. Some pick) (\<lambda>choices. Some choices) (\<lambda>t fields. Some t)"

section \<open>The mutation session: \<open>executeMutation\<close>\<close>

text \<open>
  \<^verbatim>\<open>
  async function executeMutation(mutationString, name) {
      console.clear();
      await runQuery(mutationString);

      const op = await (new Select({ choices: ["edit", "store", "exit", "new mutation"] })).run();
      if (op === "rerun") {
          return executeMutation(queryString, name);
      } else if (op === "edit") {
          return editMutation(queryString, name);
      } else if (op === "new mutation") {
          return buildMutation();
      } else if (op === "store") {
          return storeMutation(queryString, name);
      } else if (op === "exit") {
          return;
      }
  }
  \<close>
  Both revisions have the same body. The model is one pass through the function: it ends
  with a failure, with the return, or with the call that the chosen branch makes, its
  arguments evaluated.

  An identifier is looked up in the scope of the function (its parameters and \<^verbatim>\<open>op\<close>) and
  then among the declarations of the module, imports included; the global object has no
  property of the name that matters here. An identifier that is bound nowhere raises a
  \<open>ReferenceError\<close>. Arguments are evaluated from left to right.
\<close>

datatype val = Str string | Undefined | Declared string

definition module_declarations :: "string list" where
  "module_declarations =
     [''fetch'', ''randomBytes'', ''color'', ''enquirer'', ''AutoComplete'', ''Input'',
      ''Select'', ''MultiSelect'', ''Snippet'', ''Confirm'', ''fs'', ''readFileSync'',
      ''writeFileSync'', ''exec'', ''spawnSync'', ''path'', ''configPath'', ''config'',
      ''loadConfig'', ''storeConfig'', ''login'', ''loginTemp'', ''runQuery'', ''getTypeName'',
      ''introspectionFieldsCache'', ''introspectFields'', ''introspectionMuationCache'',
      ''introspectMutations'', ''queryTreeToString'', ''editQuery'', ''storeQuery'',
      ''storeQueryToFile'', ''loadQuery'', ''benchQuery'', ''executeQuery'', ''buildQuery'',
      ''editMutation'', ''storeMutation'', ''loadMutation'', ''executeMutation'',
      ''buildMutation'']"

definition lookup :: "(string \<times> val) list \<Rightarrow> string \<Rightarrow> error + val" where
  "lookup scope x =
     (case map_of scope x of
        Some v \<Rightarrow> Inr v
      | None \<Rightarrow> if x \<in> set module_declarations then Inr (Declared x) else Inl ReferenceError)"

datatype continuation =
    Return
  | Call_executeMutation val val
  | Call_editMutation val val
  | Call_storeMutation val val
  | Call_buildMutation

definition call2 :: "(val \<Rightarrow> val \<Rightarrow> continuation) \<Rightarrow> error + val \<Rightarrow> error + val \<Rightarrow> error + continuation" where
  "call2 f a b =
     (case a of
        Inl err \<Rightarrow> Inl err
      | Inr x \<Rightarrow> (case b of Inl err \<Rightarrow> Inl err | Inr y \<Rightarrow> Inr (f x y)))"

definition mutation_choices :: "string list" where
  "mutation_choices = [''edit'', ''store'', ''exit'', ''new mutation'']"

definition after_menu :: "(string \<times> val) list \<Rightarrow> string \<Rightarrow> error + continuation" where
  "after_menu scope op =
     (if op = ''rerun''
      then call2 Call_executeMutation (lookup scope ''queryString'') (lookup scope ''name'')
      else if op = ''edit''
      then call2 Call_editMutation (lookup scope ''queryString'') (lookup scope ''name'')
      else if op = ''new mutation'' then Inr Call_buildMutation
      else if op = ''store''
      then call2 Call_storeMutation (lookup scope ''queryString'') (lookup scope ''name'')
      else if op = ''exit'' then Inr Return
      else Inr Return)"

definition executeMutation ::
  "transport \<Rightarrow> user \<Rightarrow> val \<Rightarrow> val \<Rightarrow> (error + continuation) \<times> prompt list"
where
  "executeMutation t u mutationString name =
     (case fst (runQuery t) of
        Inl err \<Rightarrow> (Inl err, [])
      | Inr data \<Rightarrow>
          (case select u mutation_choices of
             None \<Rightarrow> (Inl Cancelled, [Select mutation_choices])
           | Some op \<Rightarrow>
               (after_menu
                  [(''mutationString'', mutationString), (''name'', name), (''op'', Str op)] op,
                [Select mutation_choices])))"

section \<open>Loading a file: the choice between query and mutation in \<open>main\<close>\<close>

text \<open>
  \<^verbatim>\<open>
  if (fileContent.includes("query")) {
      if (op === "load") {
          await executeQuery(fileContent, name);
      } else if (op === "run") {
          await runQuery(fileContent);
          return;
      } else throw new Error(`Unknown operation '${op}'`);
  } else if (fileContent.includes("mutation")) {
      if (op === "load") {
          await executeMutation(fileContent, name);
      } else if (op === "run") {
          await runQuery(fileContent);
          return;
      } else throw new Error(`Unknown operation '${op}'`);
  } else throw new Error(`Unknown Query type`);
  \<close>
  This is in \<^verbatim>\<open>src/index.js\<close> only. The model is the choice of the branch and of the call
  made in it. \<^verbatim>\<open>s.includes(sub)\<close> says whether \<open>sub\<close> occurs in \<open>s\<close> at some position.
\<close>

fun string_includes :: "string \<Rightarrow> string \<Rightarrow> bool" where
  "string_includes [] sub = (sub = [])"
| "string_includes (c # s) sub = (prefix sub (c # s) \<or> string_includes s sub)"

datatype action =
    Run_executeQuery string string
  | Run_runQuery string
  | Run_executeMutation string string

definition query_path :: "string \<Rightarrow> string \<Rightarrow> string \<Rightarrow> error + action" where
  "query_path op fileContent name =
     (if op = ''load'' then Inr (Run_executeQuery fileContent name)
      else if op = ''run'' then Inr (Run_runQuery fileContent)
      else Inl (UnknownOperation op))"

definition mutation_path :: "string \<Rightarrow> string \<Rightarrow> string \<Rightarrow> error + action" where
  "mutation_path op fileContent name =
     (if op = ''load'' then Inr (Run_executeMutation fileContent name)
      else if op = ''run'' then Inr (Run_runQuery fileContent)
      else Inl (UnknownOperation op))"

definition dispatch :: "string \<Rightarrow> string \<Rightarrow> string \<Rightarrow> error + action" where
  "dispatch op fileContent name =
     (if string_includes fileContent ''query'' then query_path op fileContent name
      else if string_includes fileContent ''mutation'' then mutation_path op fileContent name
      else Inl UnknownQueryType)"

section \<open>Theorems about \<open>runQuery\<close>\<close>

lemma print_errors_no_null: "JNull \<notin> set es \<Longrightarrow> print_errors es = Inr ()"
proof (induction es)
  case Nil
  show ?case by simp
next
  case (Cons e es)
  then show ?case by (cases e) simp_all
qed

lemma print_errors_null: "JNull \<in> set es \<Longrightarrow> print_errors es = Inl TypeError"
proof (induction es)
  case Nil
  then show ?case by simp
next
  case (Cons e es)
  then show ?case by (cases e) auto
qed

lemma print_errors_raises_only_TypeError: "print_errors es = Inl err \<Longrightarrow> err = TypeError"
  by (cases "JNull \<in> set es") (simp_all add: print_errors_no_null print_errors_null)




text \<open>
  Claim C7. For every response whose status is outside 200 to 299, \<open>runQuery\<close> raises
  \<open>HTTPError\<close>, and the only read of the body is the one of its text for the console: the
  body is not parsed as JSON, so no \<^verbatim>\<open>errors\<close> array is looked at, whatever the body holds.
\<close>

theorem runQuery_http_error:
  assumes "\<not> ok r"
  shows "runQuery (Responded r) = (Inl HTTPError, [ReadText])"
  using assms by (simp add: runQuery_def)

theorem runQuery_http_error_witness:
  "runQuery (Responded (Response 500 ''Internal Server Error''
      (Some (JObj [(''errors'', JArr [JObj [(''message'', JStr ''X'')]])]))))
   = (Inl HTTPError, [ReadText])"
  by (rule runQuery_http_error) (simp add: ok_def)

section \<open>Theorems about \<open>getTypeName\<close>\<close>

lemma getTypeName_select_type:
  assumes "innermost t \<noteq> []"
  shows "getTypeName (select_type k t) =
     (if wrappers t \<le> k then Inr (innermost t) else Inl (CannotGetType (TypeRef None None)))"
  using assms
proof (induction t arbitrary: k)
  case (Named n)
  then show ?case by simp
next
  case (ListOf t)
  then show ?case by (cases k) simp_all
next
  case (NonNull t)
  then show ?case by (cases k) simp_all
qed

lemma getTypeName_too_deep:
  "k < wrappers t \<Longrightarrow> getTypeName (select_type k t) = Inl (CannotGetType (TypeRef None None))"
proof (induction t arbitrary: k)
  case (Named n)
  then show ?case by simp
next
  case (ListOf t)
  then show ?case by (cases k) simp_all
next
  case (NonNull t)
  then show ?case by (cases k) simp_all
qed

text \<open>
  Claim C10. The selection of the field query reaches four \<^verbatim>\<open>ofType\<close> levels. For every
  type wrapped in more than four list or non-null layers, \<open>getTypeName\<close> on the answer
  arrives at an object with neither a name nor an \<^verbatim>\<open>ofType\<close> and raises the
  \<^verbatim>\<open>Cannot get type\<close> error for that object. For every type with at most four layers it
  returns the name of the innermost, named type (a GraphQL name, which is not empty).
\<close>

theorem getTypeName_four_layers:
  "(ofType_depth < wrappers t \<longrightarrow>
      getTypeName (select_type ofType_depth t) = Inl (CannotGetType (TypeRef None None))) \<and>
   (wrappers t \<le> ofType_depth \<and> innermost t \<noteq> [] \<longrightarrow>
      getTypeName (select_type ofType_depth t) = Inr (innermost t))"
  by (simp add: getTypeName_too_deep getTypeName_select_type)

theorem getTypeName_four_layers_witness:
  "wrappers (NonNull (ListOf (NonNull (ListOf (NonNull (Named ''User'')))))) = 5 \<and>
   getTypeName (select_type ofType_depth
      (NonNull (ListOf (NonNull (ListOf (NonNull (Named ''User''))))))) =
     Inl (CannotGetType (TypeRef None None)) \<and>
   wrappers (ListOf (NonNull (ListOf (NonNull (Named ''User''))))) = 4 \<and>
   getTypeName (select_type ofType_depth (ListOf (NonNull (ListOf (NonNull (Named ''User'')))))) =
     Inr ''User''"
  using getTypeName_four_layers [of "NonNull (ListOf (NonNull (ListOf (NonNull (Named ''User'')))))"]
    getTypeName_four_layers [of "ListOf (NonNull (ListOf (NonNull (Named ''User''))))"]
  by (simp add: ofType_depth_def)

text \<open>
  The error is fatal for the call of \<open>introspectFields\<close> that received the field: the loop
  over the fields of the answer stops at it, and nothing is returned.
\<close>

lemma getTypeName_raises: "getTypeName t = Inl err \<Longrightarrow> \<exists>obj. err = CannotGetType obj"
  by (induction t rule: getTypeName.induct) (auto split: if_splits option.splits)

lemma addFields_too_deep:
  assumes "f \<in> set fs"
    and "field_type f = select_type ofType_depth t"
    and "ofType_depth < wrappers t"
  shows "\<exists>obj. fst (addFields path fs acc c) = Inl (CannotGetType obj)"
  using assms(1)
proof (induction fs arbitrary: acc c)
  case Nil
  then show ?case by simp
next
  case (Cons g fs)
  show ?case
  proof (cases "getTypeName (field_type g)")
    case (Inl err)
    then show ?thesis using getTypeName_raises by fastforce
  next
    case (Inr name)
    have "g \<noteq> f"
      using Inr assms(2,3) getTypeName_too_deep [of ofType_depth t] by auto
    with Cons.prems have "f \<in> set fs" by simp
    then show ?thesis using Inr Cons.IH by simp
  qed
qed

lemma fetchFields_too_deep:
  assumes "srv (requests s) type = Fields fs"
    and "f \<in> set fs"
    and "field_type f = select_type ofType_depth t"
    and "ofType_depth < wrappers t"
  shows "\<exists>obj. fst (fetchFields srv path type s) = Inl (CannotGetType obj)"
proof -
  from addFields_too_deep [OF assms(2-4)] obtain obj c
    where "addFields path fs [] (cache s) = (Inl (CannotGetType obj), c)"
    by (metis prod.collapse)
  with assms(1) show ?thesis by (simp add: fetchFields_def Let_def)
qed

section \<open>Theorems about \<open>queryTreeToString\<close>\<close>

subsection \<open>Field names and well-formed output\<close>

text \<open>
  The keys of an operation tree are field names of the schema. A GraphQL name is a letter
  or an underscore followed by letters, digits and underscores
  (\<^verbatim>\<open>/[_A-Za-z][_0-9A-Za-z]*/\<close>). \<open>well_named\<close> says that every key of a tree, at every
  depth, is one.
\<close>

definition name_start :: "char \<Rightarrow> bool" where
  "name_start c = (c \<in> set ''_ABCDEFGHIJKLMNOPQRSTUVWXYZabcdefghijklmnopqrstuvwxyz'')"

definition name_continue :: "char \<Rightarrow> bool" where
  "name_continue c = (name_start c \<or> c \<in> set ''0123456789'')"

fun graphql_name :: "string \<Rightarrow> bool" where
  "graphql_name [] = False"
| "graphql_name (c # cs) = (name_start c \<and> list_all name_continue cs)"

fun well_named :: "OperationTree \<Rightarrow> bool" where
  "well_named [] = True"
| "well_named ((key, Node fields) # rest) =
     (graphql_name key \<and> well_named fields \<and> well_named rest)"

text \<open>
  Balanced braces: \<open>braces n s\<close> scans \<open>s\<close> with \<open>n\<close> blocks open and returns the number open
  at the end, or \<open>None\<close> when a closing brace has no opening one before it.
\<close>

fun braces :: "nat \<Rightarrow> string \<Rightarrow> nat option" where
  "braces n [] = Some n"
| "braces n (c # s) =
     (if c = CHR ''{'' then braces (Suc n) s
      else if c = CHR ''}'' then (case n of 0 \<Rightarrow> None | Suc m \<Rightarrow> braces m s)
      else braces n s)"

definition balanced :: "string \<Rightarrow> bool" where
  "balanced s = (braces 0 s = Some 0)"

text \<open>The lines of a text, as \<^verbatim>\<open>s.split("\n")\<close> gives them.\<close>

fun split_lines :: "string \<Rightarrow> string list" where
  "split_lines [] = [[]]"
| "split_lines (c # s) =
     (if c = CHR 0x0A then [] # split_lines s
      else (case split_lines s of [] \<Rightarrow> [[c]] | l # ls \<Rightarrow> (c # l) # ls))"

text \<open>
  Indentation: a line is indented by two spaces for every block that is open where the
  line starts; a line that is a closing brace belongs to the level of the line that
  opened its block. \<open>indent_scan n ls\<close> checks the lines \<open>ls\<close> from nesting level \<open>n\<close> and
  returns the level after them, or \<open>None\<close> at the first line that is indented otherwise.
\<close>

definition indentation :: "string \<Rightarrow> nat" where
  "indentation l = length (takeWhile (\<lambda>c. c = CHR '' '') l)"

definition content :: "string \<Rightarrow> string" where
  "content l = dropWhile (\<lambda>c. c = CHR '' '') l"

definition opens_block :: "string \<Rightarrow> bool" where
  "opens_block l = (l \<noteq> [] \<and> last l = CHR ''{'')"

fun indent_scan :: "nat \<Rightarrow> string list \<Rightarrow> nat option" where
  "indent_scan n [] = Some n"
| "indent_scan n (l # ls) =
     (if content l = ''}''
      then (case n of 0 \<Rightarrow> None
            | Suc m \<Rightarrow> if indentation l = 2 * m then indent_scan m ls else None)
      else if indentation l = 2 * n
           then indent_scan (if opens_block l then Suc n else n) ls
           else None)"

text \<open>The leaves of a tree, each with its nesting level (the fields of the root are at 1).\<close>

fun leaves :: "OperationTree \<Rightarrow> nat \<Rightarrow> (nat \<times> string) list" where
  "leaves [] n = []"
| "leaves ((key, Node fields) # rest) n =
     (if fields = [] then [(n, key)] else leaves fields (Suc n)) @ leaves rest n"

text \<open>
  No empty block: no opening brace is followed by a closing one with nothing but spaces
  and newlines between them. The flag of \<open>block_scan\<close> says that a brace was opened and only
  white space has followed.
\<close>

fun block_scan :: "bool \<Rightarrow> string \<Rightarrow> bool option" where
  "block_scan b [] = Some b"
| "block_scan b (c # s) =
     (if c = CHR ''{'' then block_scan True s
      else if c = CHR ''}'' then (if b then None else block_scan False s)
      else if c = CHR '' '' \<or> c = CHR 0x0A then block_scan b s
      else block_scan False s)"

definition no_empty_block :: "string \<Rightarrow> bool" where
  "no_empty_block s = (block_scan False s \<noteq> None)"

subsection \<open>Facts about names\<close>

lemma name_continue_plain:
  "name_continue c \<Longrightarrow> c \<noteq> CHR ''{'' \<and> c \<noteq> CHR ''}'' \<and> c \<noteq> CHR '' '' \<and> c \<noteq> CHR 0x0A"
  by (auto simp: name_continue_def name_start_def)

lemma name_start_continue: "name_start c \<Longrightarrow> name_continue c"
  by (simp add: name_continue_def)

lemma graphql_name_chars: "graphql_name k \<Longrightarrow> c \<in> set k \<Longrightarrow> name_continue c"
  by (cases k) (auto simp: list_all_iff name_start_continue)

lemma graphql_name_nonempty: "graphql_name k \<Longrightarrow> k \<noteq> []"
  by (cases k) auto

subsection \<open>Balanced braces\<close>

lemma braces_append:
  "braces n (s @ t) = (case braces n s of None \<Rightarrow> None | Some m \<Rightarrow> braces m t)"
  by (induction s arbitrary: n) (auto split: nat.splits)

lemma braces_plain:
  "\<forall>c\<in>set s. c \<noteq> CHR ''{'' \<and> c \<noteq> CHR ''}'' \<Longrightarrow> braces n s = Some n"
  by (induction s) auto

lemma braces_name: "graphql_name k \<Longrightarrow> braces n k = Some n"
  by (rule braces_plain) (use graphql_name_chars name_continue_plain in blast)

lemma braces_spaces: "braces n (replicate d CHR '' '') = Some n"
  by (rule braces_plain) simp

lemma braces_addQuery: "well_named t \<Longrightarrow> braces n (addQuery t d) = Some n"
  by (induction t d arbitrary: n rule: addQuery.induct)
     (simp_all add: braces_append braces_name braces_spaces)

lemma balanced_queryTreeToString: "well_named t \<Longrightarrow> balanced (queryTreeToString t)"
  by (simp add: balanced_def queryTreeToString_def braces_append braces_addQuery)

subsection \<open>No empty block\<close>

lemma block_scan_append:
  "block_scan b (s @ t) = (case block_scan b s of None \<Rightarrow> None | Some b' \<Rightarrow> block_scan b' t)"
  by (induction s arbitrary: b) auto

lemma block_scan_spaces: "block_scan b (replicate d CHR '' '') = Some b"
  by (induction d) auto

lemma block_scan_plain:
  "\<forall>c\<in>set s. c \<noteq> CHR ''{'' \<and> c \<noteq> CHR ''}'' \<and> c \<noteq> CHR '' '' \<and> c \<noteq> CHR 0x0A \<Longrightarrow> s \<noteq> [] \<Longrightarrow>
   block_scan b s = Some False"
proof (induction s arbitrary: b)
  case Nil
  then show ?case by simp
next
  case (Cons c s)
  show ?case
  proof (cases s)
    case Nil
    with Cons.prems show ?thesis by simp
  next
    case (Cons c' s')
    with Cons.prems Cons.IH [of False] show ?thesis by simp
  qed
qed

lemma block_scan_name: "graphql_name k \<Longrightarrow> block_scan b k = Some False"
  by (rule block_scan_plain) (use graphql_name_chars name_continue_plain graphql_name_nonempty in blast)+

lemma block_scan_addQuery:
  "well_named t \<Longrightarrow> t \<noteq> [] \<Longrightarrow> block_scan b (addQuery t d) = Some False"
proof (induction t d arbitrary: b rule: addQuery.induct)
  case (1 depth)
  then show ?case by simp
next
  case (2 key fields rest depth)
  show ?case
  proof (cases rest)
    case Nil
    with 2 show ?thesis
      by (simp add: block_scan_append block_scan_name block_scan_spaces)
  next
    case (Cons a list)
    with 2 show ?thesis 
      by (simp add: block_scan_append block_scan_name block_scan_spaces)
  qed
qed

lemma no_empty_block_queryTreeToString:
  "well_named t \<Longrightarrow> t \<noteq> [] \<Longrightarrow> no_empty_block (queryTreeToString t)"
  by (simp add: no_empty_block_def queryTreeToString_def block_scan_append block_scan_addQuery)


subsection \<open>The lines of the output\<close>

text \<open>
  \<open>addLines\<close> is the output of \<open>addQuery\<close> line by line, at nesting level \<open>n\<close>; it is a
  device of the proofs, related to the model of the source by \<open>addQuery_addLines\<close>.
\<close>

fun addLines :: "OperationTree \<Rightarrow> nat \<Rightarrow> string list" where
  "addLines [] n = []"
| "addLines ((key, Node fields) # rest) n =
     (if fields \<noteq> []
      then (replicate (2 * n) CHR '' '' @ key @ '' {'') # addLines fields (Suc n) @
           [replicate (2 * n) CHR '' '' @ ''}'']
      else [replicate (2 * n) CHR '' '' @ key])
     @ addLines rest n"

lemma addQuery_addLines:
  "addQuery t (2 * n) = concat (map (\<lambda>l. l @ NL) (addLines t n))"
  by (induction t n rule: addLines.induct) simp_all

lemma split_lines_nonempty: "split_lines s \<noteq> []"
  by (induction s) (auto split: list.splits)

lemma split_lines_line:
  "CHR 0x0A \<notin> set l \<Longrightarrow> split_lines (l @ CHR 0x0A # s) = l # split_lines s"
  by (induction l) auto

lemma split_lines_single: "CHR 0x0A \<notin> set l \<Longrightarrow> split_lines l = [l]"
  by (induction l) auto

lemma split_lines_concat:
  "\<forall>l\<in>set ls. CHR 0x0A \<notin> set l \<Longrightarrow>
   split_lines (concat (map (\<lambda>l. l @ NL) ls) @ s) = ls @ split_lines s"
  by (induction ls) (simp_all add: split_lines_line)

lemma graphql_name_no_newline: "graphql_name k \<Longrightarrow> CHR 0x0A \<notin> set k"
  using graphql_name_chars name_continue_plain by blast

lemma addLines_no_newline:
  "well_named t \<Longrightarrow> l \<in> set (addLines t n) \<Longrightarrow> CHR 0x0A \<notin> set l"
  by (induction t n rule: addLines.induct) (auto simp: graphql_name_no_newline split: if_splits)

lemma split_lines_queryTreeToString:
  assumes "well_named t"
  shows "split_lines (queryTreeToString t) = ''query {'' # addLines t 1 @ [''}'']"
proof -
  have "addQuery t 2 = concat (map (\<lambda>l. l @ NL) (addLines t 1))"
    using addQuery_addLines [of t 1] by simp
  moreover have "\<forall>l\<in>set (addLines t 1). CHR 0x0A \<notin> set l"
    using assms addLines_no_newline by blast
  ultimately show ?thesis
    using split_lines_line [of "''query {''" "addQuery t 2 @ ''}''"]
    by (simp add: queryTreeToString_def split_lines_concat)
qed

subsection \<open>Indentation\<close>

lemma indent_scan_append:
  "indent_scan n (ls @ ms) =
     (case indent_scan n ls of None \<Rightarrow> None | Some m \<Rightarrow> indent_scan m ms)"
  by (induction ls arbitrary: n) (auto split: nat.splits)

lemma graphql_name_hd: "graphql_name k \<Longrightarrow> hd k \<noteq> CHR '' ''"
  by (cases k) (auto dest: name_start_continue name_continue_plain)

lemma indentation_spaces:
  "s \<noteq> [] \<Longrightarrow> hd s \<noteq> CHR '' '' \<Longrightarrow> indentation (replicate d CHR '' '' @ s) = d"
  by (induction d) (cases s; simp add: indentation_def)+

lemma content_spaces:
  "s \<noteq> [] \<Longrightarrow> hd s \<noteq> CHR '' '' \<Longrightarrow> content (replicate d CHR '' '' @ s) = s"
  by (induction d) (cases s; simp add: content_def)+

lemma graphql_name_last: "graphql_name k \<Longrightarrow> last k \<noteq> CHR ''{''"
  using graphql_name_chars [of k "last k"] name_continue_plain [of "last k"] graphql_name_nonempty [of k]
  by auto

lemma graphql_name_not_close: "graphql_name k \<Longrightarrow> k \<noteq> ''}''"
  using graphql_name_chars [of k "CHR ''}''"] name_continue_plain [of "CHR ''}''"] by auto

lemma graphql_name_open_not_close: "k @ '' {'' \<noteq> ''}''"
  by (cases k) auto

lemma indent_scan_leaf:
  assumes "graphql_name k"
  shows "indent_scan n ((replicate (2 * n) CHR '' '' @ k) # ls) = indent_scan n ls"
  using assms graphql_name_nonempty [OF assms] graphql_name_hd [OF assms]
    graphql_name_last [OF assms] graphql_name_not_close [OF assms]
  by (simp add: indentation_spaces content_spaces opens_block_def)

lemma indent_scan_open:
  assumes "graphql_name k"
  shows "indent_scan n ((replicate (2 * n) CHR '' '' @ k @ '' {'') # ls) = indent_scan (Suc n) ls"
proof -
  have ne: "k @ '' {'' \<noteq> []" by simp
  have h: "hd (k @ '' {'') \<noteq> CHR '' ''"
    using graphql_name_hd [OF assms] graphql_name_nonempty [OF assms] by simp
  show ?thesis
    using indentation_spaces [OF ne h, of "2 * n"] content_spaces [OF ne h, of "2 * n"]
    by (simp add: opens_block_def graphql_name_open_not_close)
qed

lemma indent_scan_close:
  "indent_scan (Suc n) ((replicate (2 * n) CHR '' '' @ ''}'') # ls) = indent_scan n ls"
  using indentation_spaces [of "''}''" "2 * n"] content_spaces [of "''}''" "2 * n"]
  by simp

lemma indent_scan_addLines:
  "well_named t \<Longrightarrow> indent_scan n (addLines t n @ ls) = indent_scan n ls"
proof (induction t n arbitrary: ls rule: addLines.induct)
  case (1 n)
  show ?case by simp
next
  case (2 key fields rest n)
  show ?case
  proof (cases "fields = []")
    case True
    with 2 show ?thesis
      by (simp add: indent_scan_leaf del: indent_scan.simps)
  next
    case False
    with 2 show ?thesis
      by (simp add: indent_scan_open indent_scan_close del: indent_scan.simps)
  qed
qed

definition indented :: "string \<Rightarrow> bool" where
  "indented s = (indent_scan 0 (split_lines s) = Some 0)"

lemma indented_queryTreeToString:
  assumes "well_named t"
  shows "indented (queryTreeToString t)"
proof -
  have first: "indent_scan 0 (''query {'' # ms) = indent_scan 1 ms" for ms
    by (simp add: indentation_def content_def opens_block_def)
  have last: "indent_scan 1 [''}''] = Some 0"
    by (simp add: indentation_def content_def)
  have "indent_scan 0 (''query {'' # addLines t 1 @ [''}'']) = Some 0"
    unfolding first indent_scan_addLines [OF assms] by (rule last)
  then show ?thesis
    by (simp only: indented_def split_lines_queryTreeToString [OF assms])
qed

subsection \<open>Leaves\<close>

lemma leaves_addLines:
  "(lvl, name) \<in> set (leaves t n) \<Longrightarrow>
   replicate (2 * lvl) CHR '' '' @ name \<in> set (addLines t n)"
  by (induction t n rule: addLines.induct) (auto split: if_splits)

lemma leaves_queryTreeToString:
  "well_named t \<Longrightarrow> (lvl, name) \<in> set (leaves t 1) \<Longrightarrow>
   replicate (2 * lvl) CHR '' '' @ name \<in> set (split_lines (queryTreeToString t))"
  by (simp add: split_lines_queryTreeToString leaves_addLines)

subsection \<open>The rendered tree\<close>

lemma graphql_name_no_braces:
  "graphql_name k \<Longrightarrow> CHR ''{'' \<notin> set k \<and> CHR ''}'' \<notin> set k"
  using graphql_name_chars name_continue_plain by blast

lemma leaves_named: "well_named t \<Longrightarrow> (lvl, name) \<in> set (leaves t n) \<Longrightarrow> graphql_name name"
  by (induction t n rule: leaves.induct) (auto split: if_splits)

text \<open>
  Claim C4. Let the keys of an operation tree be GraphQL names and let its root selection
  not be empty (below the root, a node without children is a leaf, so every selection that
  is rendered as a block has a child). Then the text that \<open>queryTreeToString\<close> returns
  \<^item> has balanced braces;
  \<^item> has every line indented by exactly two spaces per nesting level;
  \<^item> has, for every leaf, a line that consists of the indentation of the leaf's level and
    its name, with no brace;
  \<^item> has no empty pair of braces.
\<close>

theorem queryTreeToString_well_formed:
  assumes "well_named query" and "query \<noteq> []"
  shows "balanced (queryTreeToString query) \<and>
         indented (queryTreeToString query) \<and>
         (\<forall>(lvl, name) \<in> set (leaves query 1).
            replicate (2 * lvl) CHR '' '' @ name \<in> set (split_lines (queryTreeToString query)) \<and>
            CHR ''{'' \<notin> set name \<and> CHR ''}'' \<notin> set name) \<and>
         no_empty_block (queryTreeToString query)"
proof -
  have "balanced (queryTreeToString query)"
    using assms(1) by (rule balanced_queryTreeToString)
  moreover have "indented (queryTreeToString query)"
    using assms(1) by (rule indented_queryTreeToString)
  moreover have "replicate (2 * lvl) CHR '' '' @ name \<in> set (split_lines (queryTreeToString query)) \<and>
      CHR ''{'' \<notin> set name \<and> CHR ''}'' \<notin> set name"
    if "(lvl, name) \<in> set (leaves query 1)" for lvl name
    using that assms(1) leaves_queryTreeToString leaves_named graphql_name_no_braces by blast
  moreover have "no_empty_block (queryTreeToString query)"
    using assms by (rule no_empty_block_queryTreeToString)
  ultimately show ?thesis by blast
qed

theorem queryTreeToString_well_formed_witness:
  "well_named [(''me'', Node [(''id'', Node []), (''name'', Node [])]), (''version'', Node [])] \<and>
   balanced (queryTreeToString
     [(''me'', Node [(''id'', Node []), (''name'', Node [])]), (''version'', Node [])]) \<and>
   indented (queryTreeToString
     [(''me'', Node [(''id'', Node []), (''name'', Node [])]), (''version'', Node [])]) \<and>
   ''    name'' \<in> set (split_lines (queryTreeToString
     [(''me'', Node [(''id'', Node []), (''name'', Node [])]), (''version'', Node [])])) \<and>
   ''  version'' \<in> set (split_lines (queryTreeToString
     [(''me'', Node [(''id'', Node []), (''name'', Node [])]), (''version'', Node [])])) \<and>
   no_empty_block (queryTreeToString
     [(''me'', Node [(''id'', Node []), (''name'', Node [])]), (''version'', Node [])])"
proof -
  let ?t = "[(''me'', Node [(''id'', Node []), (''name'', Node [])]), (''version'', Node [])]"
  have wn: "well_named ?t"
    by (simp add: name_start_def name_continue_def)
  have ne: "?t \<noteq> []"
    by simp
  have lv: "leaves ?t 1 = [(2, ''id''), (2, ''name''), (1, ''version'')]"
    by (simp add: numeral_2_eq_2)
  from queryTreeToString_well_formed [OF wn ne] show ?thesis
    unfolding lv using wn by (simp add: eval_nat_numeral)
qed

text \<open>
  The conditions are used. With an empty root selection the output is \<^verbatim>\<open>query {\<close>, a newline
  and \<^verbatim>\<open>}\<close>, an empty pair of braces; and the checks do reject texts: a line that is
  indented by one space, a closing brace without an opening one.
\<close>

lemma queryTreeToString_empty_root: "\<not> no_empty_block (queryTreeToString [])"
  by (simp add: queryTreeToString_def no_empty_block_def)

lemma indented_rejects: "\<not> indented (''query {'' @ NL @ '' user'' @ NL @ ''}'')"
  by (simp add: indented_def indentation_def content_def opens_block_def)

lemma balanced_rejects: "\<not> balanced (''query {'' @ NL @ ''  }'' @ NL @ ''}'')"
  by (simp add: balanced_def)

text \<open>
  Claim C5. For the operation tree \<^verbatim>\<open>{user: {fields: {id: {fields: {}}}}}\<close>, the root field
  \<open>user\<close> with the single scalar child \<open>id\<close>, \<open>queryTreeToString\<close> returns exactly the five
  lines \<^verbatim>\<open>query {\<close>, \<^verbatim>\<open>  user {\<close>, \<^verbatim>\<open>    id\<close>, \<^verbatim>\<open>  }\<close>, \<^verbatim>\<open>}\<close>, separated by single
  newlines and with no newline after the last brace.
\<close>

theorem queryTreeToString_user_id:
  "queryTreeToString [(''user'', Node [(''id'', Node [])])] =
     ''query {'' @ NL @ ''  user {'' @ NL @ ''    id'' @ NL @ ''  }'' @ NL @ ''}''"
  by (simp add: queryTreeToString_def numeral_2_eq_2 numeral_Bit0)

section \<open>Theorems about \<open>introspectFields\<close>\<close>

lemma fetchFields_cached:
  assumes "fetchFields srv path type s = (Inr fields, s')"
  shows "cached_fields (cache s') (join path) = Some fields"
  using assms
  by (auto simp: fetchFields_def Let_def cached_fields_def
           split: answer.splits prod.splits sum.splits)

lemma introspectFields_cached:
  assumes "introspectFields srv path s = (Inr fields, s')"
  shows "cached_fields (cache s') (join path) = Some fields"
proof (cases "cached_fields (cache s) (join path)")
  case (Some fs)
  with assms show ?thesis
    by (subst (asm) introspectFields.simps) simp
next
  case None
  show ?thesis
  proof (cases "path = []")
    case True
    with None assms have "fetchFields srv path ''Query'' s = (Inr fields, s')"
      by (subst (asm) introspectFields.simps) simp
    then show ?thesis by (rule fetchFields_cached)
  next
    case False
    with None assms obtain s1 entry
      where "fetchFields srv path (entry_type entry) s1 = (Inr fields, s')"
      by (subst (asm) introspectFields.simps)
         (auto split: prod.splits sum.splits option.splits)
    then show ?thesis by (rule fetchFields_cached)
  qed
qed

lemma introspectFields_hit:
  assumes "cached_fields (cache s) (join path) = Some fields"
  shows "introspectFields srv path s = (Inr fields, s)"
  using assms by (subst introspectFields.simps) simp

subsection \<open>A session of calls\<close>

text \<open>
  Between two calls on a path the program calls \<open>introspectFields\<close> on other paths.
  \<open>session\<close> is a series of calls, each continuing in the state the one before left,
  whether it returned or raised.

  A call that computes writes the key of its path and the keys of the children of the
  path. That it never writes over the field list of another path rests on the shape of
  the keys: a name holds no comma (no GraphQL name does), and a path that is asked for
  consists of such names, none empty. \<open>populated\<close> are the keys that have a field list;
  a cache is consistent when the parent of every populated key is populated, which is how
  the function fills it: ancestors first. The empty cache is consistent.
\<close>

definition comma_free :: "string \<Rightarrow> bool" where
  "comma_free f = (CHR '','' \<notin> set f)"

definition plain_path :: "string list \<Rightarrow> bool" where
  "plain_path q = list_all (\<lambda>x. x \<noteq> [] \<and> comma_free x) q"

definition plain_server :: "server \<Rightarrow> bool" where
  "plain_server srv =
     (\<forall>asked type fs. srv asked type = Fields fs \<longrightarrow> list_all (\<lambda>f. comma_free (field_name f)) fs)"

definition populated :: "fields_cache \<Rightarrow> string set" where
  "populated c = {k. cached_fields c k \<noteq> None}"

definition consistent_keys :: "string set \<Rightarrow> bool" where
  "consistent_keys K =
     (\<forall>k f. comma_free f \<longrightarrow>
        (k @ '','' @ f \<in> K \<longrightarrow> k \<in> K) \<and> (f \<noteq> [] \<and> f \<in> K \<longrightarrow> [] \<in> K))"

fun session :: "server \<Rightarrow> string list list \<Rightarrow> state \<Rightarrow> state" where
  "session srv [] s = s"
| "session srv (q # qs) s = session srv qs (snd (introspectFields srv q s))"

lemma join_snoc: "join (a @ [x]) = (if a = [] then x else join a @ '','' @ x)"
  by (induction a rule: join.induct) auto

lemma join_butlast:
  "q \<noteq> [] \<Longrightarrow> join q = (if butlast q = [] then last q else join (butlast q) @ '','' @ last q)"
  using join_snoc [of "butlast q" "last q"] by simp

lemma comma_split_unique:
  assumes "comma_free f" and "comma_free f'" and "k @ CHR '','' # f = k' @ CHR '','' # f'"
  shows "k = k' \<and> f = f'"
  using assms
proof (induction k arbitrary: k')
  case Nil
  then show ?case by (cases k') (auto simp: comma_free_def)
next
  case (Cons c k)
  then show ?case by (cases k') (auto simp: comma_free_def)
qed

lemma child_not_populated:
  assumes "consistent_keys (populated c)" and "join q \<notin> populated c" and "comma_free f"
  shows "join (q @ [f]) \<notin> populated c"
proof
  assume pop: "join (q @ [f]) \<in> populated c"
  show False
  proof (cases "q = []")
    case True
    with pop have "f \<in> populated c" by simp
    with assms True show False
      by (cases "f = []") (auto simp: consistent_keys_def)
  next
    case False
    with pop have "join q @ '','' @ f \<in> populated c" by (simp add: join_snoc)
    with assms show False by (auto simp: consistent_keys_def)
  qed
qed

lemma populated_upd_None:
  "populated (c(k \<mapsto> Entry None t)) = populated c - {k}"
  by (auto simp: populated_def cached_fields_def)

lemma populated_upd_Some:
  "populated (c(k \<mapsto> Entry (Some fs) t)) = insert k (populated c)"
  by (auto simp: populated_def cached_fields_def)

lemma addFields_frame:
  assumes "consistent_keys (populated c)" and "join q \<notin> populated c"
    and "list_all (\<lambda>f. comma_free (field_name f)) fs"
    and "addFields q fs acc c = (r, c')"
  shows "populated c' = populated c \<and> (\<forall>k\<in>populated c. cached_fields c' k = cached_fields c k)"
  using assms
proof (induction fs arbitrary: acc c)
  case Nil
  then show ?case by simp
next
  case (Cons f fs)
  show ?case
  proof (cases "getTypeName (field_type f)")
    case (Inl err)
    with Cons.prems show ?thesis by simp
  next
    case (Inr t)
    let ?k = "join (q @ [field_name f])"
    let ?c1 = "c(?k \<mapsto> Entry None t)"
    from Cons.prems have cf: "comma_free (field_name f)" by simp
    have fresh: "?k \<notin> populated c"
      using Cons.prems(1,2) cf by (rule child_not_populated)
    then have same: "populated ?c1 = populated c"
      by (simp add: populated_upd_None)
    have kept: "\<forall>k\<in>populated c. cached_fields ?c1 k = cached_fields c k"
      using fresh by (auto simp: cached_fields_def)
    from Cons.prems Inr have rest: "addFields q fs (acc @ [field_name f]) ?c1 = (r, c')"
      by simp
    have c1: "consistent_keys (populated ?c1)"
      unfolding same by (rule Cons.prems(1))
    have j1: "join q \<notin> populated ?c1"
      unfolding same by (rule Cons.prems(2))
    from Cons.prems(3) have plain: "list_all (\<lambda>f. comma_free (field_name f)) fs"
      by simp
    have "populated c' = populated ?c1 \<and>
        (\<forall>k\<in>populated ?c1. cached_fields c' k = cached_fields ?c1 k)"
      using c1 j1 plain rest by (rule Cons.IH)
    then have "populated c' = populated c \<and>
        (\<forall>k\<in>populated c. cached_fields c' k = cached_fields ?c1 k)"
      unfolding same .
    with kept show ?thesis by simp
  qed
qed

lemma fetchFields_frame:
  assumes "consistent_keys (populated (cache s))" and "join q \<notin> populated (cache s)"
    and "plain_server srv"
    and "fetchFields srv q ty s = (r, s')"
  shows "(populated (cache s') = populated (cache s) \<or>
          populated (cache s') = insert (join q) (populated (cache s))) \<and>
         (\<forall>k\<in>populated (cache s). cached_fields (cache s') k = cached_fields (cache s) k)"
proof (cases "srv (requests s) ty")
  case (Raises err)
  with assms(4) show ?thesis by (auto simp: fetchFields_def Let_def)
next
  case NoData
  with assms(4) show ?thesis by (auto simp: fetchFields_def Let_def)
next
  case NoType
  with assms(2,4) show ?thesis
    by (auto simp: fetchFields_def Let_def populated_upd_Some cached_fields_def)
next
  case NoFields
  with assms(2,4) show ?thesis
    by (auto simp: fetchFields_def Let_def populated_upd_Some cached_fields_def)
next
  case (Fields fs)
  with assms(3) have plain: "list_all (\<lambda>f. comma_free (field_name f)) fs"
    by (auto simp: plain_server_def)
  obtain r0 c0 where add: "addFields q fs [] (cache s) = (r0, c0)"
    by (cases "addFields q fs [] (cache s)")
  from addFields_frame [OF assms(1,2) plain add]
  have frame: "populated c0 = populated (cache s)"
    "\<forall>k\<in>populated (cache s). cached_fields c0 k = cached_fields (cache s) k"
    by simp_all
  show ?thesis
  proof (cases r0)
    case (Inl err)
    with assms(4) Fields add frame show ?thesis
      by (auto simp: fetchFields_def Let_def)
  next
    case (Inr fields)
    with assms(4) Fields add have "cache s' = c0(join q \<mapsto> Entry (Some fields) ty)"
      by (auto simp: fetchFields_def Let_def)
    with frame assms(2) show ?thesis
      by (auto simp: populated_upd_Some cached_fields_def)
  qed
qed

lemma consistent_insert:
  assumes "consistent_keys K" and "plain_path q"
    and "q \<noteq> [] \<Longrightarrow> join (butlast q) \<in> K"
  shows "consistent_keys (insert (join q) K)"
proof (cases "q = []")
  case True
  with assms(1) show ?thesis
    by (auto simp: consistent_keys_def)
next
  case False
  then have lastq: "last q \<noteq> []" "comma_free (last q)"
    using assms(2) by (auto simp: plain_path_def list_all_iff)
  have parent: "join (butlast q) \<in> K"
    using assms(3) False by simp
  show ?thesis
  proof (cases "butlast q = []")
    case True
    then have jq: "join q = last q" using False by (simp add: join_butlast)
    have root: "[] \<in> K" using parent True by simp
    show ?thesis
      unfolding consistent_keys_def
    proof (intro allI impI conjI)
      fix k f
      assume cf: "comma_free f"
      { assume "k @ '','' @ f \<in> insert (join q) K"
        then consider "k @ '','' @ f = last q" | "k @ '','' @ f \<in> K" using jq by auto
        then show "k \<in> insert (join q) K"
        proof cases
          case 1
          then have "CHR '','' \<in> set (last q)" by (metis append_Cons in_set_conv_decomp)
          with lastq show ?thesis by (simp add: comma_free_def)
        next
          case 2
          with assms(1) cf show ?thesis by (auto simp: consistent_keys_def)
        qed }
      { assume "f \<noteq> [] \<and> f \<in> insert (join q) K"
        with root show "[] \<in> insert (join q) K" by simp }
    qed
  next
    case notroot: False
    then have jq: "join q = join (butlast q) @ '','' @ last q"
      using False by (simp add: join_butlast)
    show ?thesis
      unfolding consistent_keys_def
    proof (intro allI impI conjI)
      fix k f
      assume cf: "comma_free f"
      { assume "k @ '','' @ f \<in> insert (join q) K"
        then consider "k @ '','' @ f = join q" | "k @ '','' @ f \<in> K" by auto
        then show "k \<in> insert (join q) K"
        proof cases
          case 1
          with jq have "k @ CHR '','' # f = join (butlast q) @ CHR '','' # last q" by simp
          with cf lastq(2) have "k = join (butlast q)"
            using comma_split_unique by blast
          with parent show ?thesis by simp
        next
          case 2
          with assms(1) cf show ?thesis by (auto simp: consistent_keys_def)
        qed }
      { assume a: "f \<noteq> [] \<and> f \<in> insert (join q) K"
        then consider "f = join q" | "f \<in> K" by auto
        then show "[] \<in> insert (join q) K"
        proof cases
          case 1
          with jq have "CHR '','' \<in> set f" by simp
          with cf show ?thesis by (simp add: comma_free_def)
        next
          case 2
          with assms(1) cf a show ?thesis by (auto simp: consistent_keys_def)
        qed }
    qed
  qed
qed


lemma join_append:
  "a \<noteq> [] \<Longrightarrow> b \<noteq> [] \<Longrightarrow> join (a @ b) = join a @ '','' @ join b"
  by (induction a rule: join.induct) (auto simp: neq_Nil_conv)

lemma join_nonempty: "b \<noteq> [] \<Longrightarrow> hd b \<noteq> [] \<Longrightarrow> join b \<noteq> []"
  by (induction b rule: join.induct) auto

lemma plain_path_butlast: "plain_path q \<Longrightarrow> plain_path (butlast q)"
  by (auto simp: plain_path_def list_all_iff dest: in_set_butlastD)

lemma proper_prefix_join:
  assumes "plain_path q" and "q \<noteq> []" and "prefix a (butlast q)"
  shows "join a \<noteq> join q"
proof -
  from assms(3) obtain b where "butlast q = a @ b" by (auto simp: prefix_def)
  then have "butlast q @ [last q] = a @ (b @ [last q])" by simp
  with assms(2) have "q = a @ (b @ [last q])" by simp
  then obtain c where q: "q = a @ c" and c: "c \<noteq> []" by blast
  show ?thesis
  proof (cases "a = []")
    case True
    from assms(1,2) have "hd q \<noteq> []"
      by (cases q) (auto simp: plain_path_def)
    with assms(2) have "join q \<noteq> []" by (rule join_nonempty)
    with True show ?thesis by simp
  next
    case False
    then have "join (a @ c) = join a @ '','' @ join c"
      using c by (rule join_append)
    then have "length (join (a @ c)) > length (join a)" by simp
    then show ?thesis unfolding q by auto
  qed
qed

lemma introspectFields_preserves:
  assumes "consistent_keys (populated (cache s))" and "plain_server srv" and "plain_path q"
    and "introspectFields srv q s = (r, s')"
  shows "consistent_keys (populated (cache s')) \<and>
         (\<forall>k\<in>populated (cache s). cached_fields (cache s') k = cached_fields (cache s) k) \<and>
         populated (cache s') \<subseteq> populated (cache s) \<union> {join a | a. prefix a q}"
  using assms
proof (induction srv q s arbitrary: r s' rule: introspectFields.induct)
  case (1 srv path s)
  show ?case
  proof (cases "cached_fields (cache s) (join path)")
    case (Some fs)
    with "1.prems"(4) have "s' = s"
      by (subst (asm) introspectFields.simps) simp
    with "1.prems"(1) show ?thesis by auto
  next
    case None
    then have miss: "join path \<notin> populated (cache s)"
      by (simp add: populated_def)
    have self: "join path \<in> {join a | a. prefix a path}" by auto
    show ?thesis
    proof (cases "path = []")
      case True
      with None "1.prems"(4) have fetch: "fetchFields srv path ''Query'' s = (r, s')"
        by (subst (asm) introspectFields.simps) simp
      from fetchFields_frame [OF "1.prems"(1) miss "1.prems"(2) fetch]
      have frame: "populated (cache s') = populated (cache s) \<or>
            populated (cache s') = insert (join path) (populated (cache s))"
          "\<forall>k\<in>populated (cache s). cached_fields (cache s') k = cached_fields (cache s) k"
        by simp_all
      have "consistent_keys (insert (join path) (populated (cache s)))"
        using "1.prems"(1,3) True by (intro consistent_insert) simp_all
      with frame(1) "1.prems"(1) have "consistent_keys (populated (cache s'))" by auto
      moreover from frame(1) self
      have "populated (cache s') \<subseteq> populated (cache s) \<union> {join a | a. prefix a path}"
        by auto
      ultimately show ?thesis using frame(2) by simp
    next
      case False
      obtain r1 s1 where rec: "introspectFields srv (butlast path) s = (r1, s1)"
        by (cases "introspectFields srv (butlast path) s")
      have pb: "plain_path (butlast path)"
        using "1.prems"(3) by (rule plain_path_butlast)
      from "1.IH" [OF None False "1.prems"(1,2) pb rec]
      have ih: "consistent_keys (populated (cache s1))"
          "\<forall>k\<in>populated (cache s). cached_fields (cache s1) k = cached_fields (cache s) k"
          "populated (cache s1) \<subseteq> populated (cache s) \<union> {join a | a. prefix a (butlast path)}"
        by simp_all
      have pre: "{join a | a. prefix a (butlast path)} \<subseteq> {join a | a. prefix a path}"
        using prefix_order.trans [OF _ prefixeq_butlast] by blast
      have mono: "populated (cache s) \<subseteq> populated (cache s1)"
        using ih(2) by (auto simp: populated_def)
      have sub1: "populated (cache s1) \<subseteq> populated (cache s) \<union> {join a | a. prefix a path}"
        using ih(3) pre by blast
      have stay: ?thesis if "s' = s1"
        using that ih(1,2) sub1 by simp
      show ?thesis
      proof (cases r1)
        case (Inl err)
        with None False rec "1.prems"(4) have "s' = s1"
          by (subst (asm) introspectFields.simps) simp
        then show ?thesis by (rule stay)
      next
        case (Inr prev_fields)
        show ?thesis
        proof (cases "cache s1 (join path)")
          case none: None
          with Inr None False rec "1.prems"(4) have "s' = s1"
            by (subst (asm) introspectFields.simps) simp
          then show ?thesis by (rule stay)
        next
          case (Some entry)
          with Inr None False rec "1.prems"(4)
          have fetch: "fetchFields srv path (entry_type entry) s1 = (r, s')"
            by (subst (asm) introspectFields.simps) simp
          have miss1: "join path \<notin> populated (cache s1)"
          proof
            assume "join path \<in> populated (cache s1)"
            with ih(3) miss obtain a where "prefix a (butlast path)" "join path = join a"
              by auto
            with proper_prefix_join [OF "1.prems"(3) False] show False by metis
          qed
          from fetchFields_frame [OF ih(1) miss1 "1.prems"(2) fetch]
          have frame: "populated (cache s') = populated (cache s1) \<or>
                populated (cache s') = insert (join path) (populated (cache s1))"
              "\<forall>k\<in>populated (cache s1). cached_fields (cache s') k = cached_fields (cache s1) k"
            by simp_all
          have parent: "join (butlast path) \<in> populated (cache s1)"
            using rec Inr introspectFields_cached [of srv "butlast path" s prev_fields s1]
            by (simp add: populated_def)
          have "consistent_keys (insert (join path) (populated (cache s1)))"
            using ih(1) "1.prems"(3) parent by (intro consistent_insert) simp_all
          with frame(1) ih(1) have c: "consistent_keys (populated (cache s'))" by auto
          have k: "\<forall>k\<in>populated (cache s). cached_fields (cache s') k = cached_fields (cache s) k"
            using frame(2) ih(2) mono by auto
          have "populated (cache s') \<subseteq> populated (cache s) \<union> {join a | a. prefix a path}"
            using frame(1) sub1 self by blast
          with c k show ?thesis by simp
        qed
      qed
    qed
  qed
qed

lemma consistent_empty: "consistent_keys (populated Map.empty)"
  by (simp add: consistent_keys_def populated_def cached_fields_def)

lemma session_preserves:
  assumes "consistent_keys (populated (cache s))" and "plain_server srv"
    and "list_all plain_path qs"
  shows "consistent_keys (populated (cache (session srv qs s))) \<and>
         (\<forall>k\<in>populated (cache s).
            cached_fields (cache (session srv qs s)) k = cached_fields (cache s) k)"
  using assms
proof (induction qs arbitrary: s)
  case Nil
  then show ?case by simp
next
  case (Cons q qs)
  obtain r s1 where step: "introspectFields srv q s = (r, s1)"
    by (cases "introspectFields srv q s")
  from Cons.prems have pq: "plain_path q" and pqs: "list_all plain_path qs" by simp_all
  from introspectFields_preserves [OF Cons.prems(1,2) pq step]
  have one: "consistent_keys (populated (cache s1))"
      "\<forall>k\<in>populated (cache s). cached_fields (cache s1) k = cached_fields (cache s) k"
    by simp_all
  have mono: "populated (cache s) \<subseteq> populated (cache s1)"
    using one(2) by (auto simp: populated_def)
  from Cons.IH [OF one(1) Cons.prems(2) pqs] step one(2) mono show ?case
    by auto
qed


text \<open>
  Claim C3. For every path, every state of the cache and every server: when a call of
  \<open>introspectFields\<close> on the path returns a field list, a second call on the same path
  returns the same list and leaves the state as it is: the cache is not written and the
  log of requests does not grow, so no introspection request is sent. This holds whatever
  the server would answer at the time of the second call (\<open>srv'\<close>): the entry is only
  read. It also holds after any series of calls on other paths in between, in a cache
  that was consistent before the first call: the entry is neither computed again nor
  written over. A first call that raises has returned nothing to compare with. (The lists
  of the model are values. In the source the list returned is the cached array itself,
  which \<^verbatim>\<open>buildQuery\<close> sorts in place: that changes the order of a cached list, not its
  elements.)
\<close>

theorem introspectFields_memoized:
  assumes "introspectFields srv path s = (Inr fields, s')"
  shows "introspectFields srv' path s' = (Inr fields, s') \<and>
         (consistent_keys (populated (cache s)) \<and> plain_server srv \<and> plain_path path \<and>
          plain_server srv'' \<and> list_all plain_path qs \<longrightarrow>
            introspectFields srv' path (session srv'' qs s') = (Inr fields, session srv'' qs s'))"
proof -
  from assms have here: "cached_fields (cache s') (join path) = Some fields"
    by (rule introspectFields_cached)
  then have now: "introspectFields srv' path s' = (Inr fields, s')"
    by (rule introspectFields_hit)
  have later: "introspectFields srv' path (session srv'' qs s') = (Inr fields, session srv'' qs s')"
    if c: "consistent_keys (populated (cache s))" and p: "plain_server srv" "plain_path path"
      and p': "plain_server srv''" "list_all plain_path qs"
  proof -
    have "consistent_keys (populated (cache s'))"
      using introspectFields_preserves [OF c p assms] by simp
    then have "\<forall>k\<in>populated (cache s').
        cached_fields (cache (session srv'' qs s')) k = cached_fields (cache s') k"
      using session_preserves p' by blast
    moreover have "join path \<in> populated (cache s')"
      using here by (simp add: populated_def)
    ultimately have "cached_fields (cache (session srv'' qs s')) (join path) = Some fields"
      using here by simp
    then show ?thesis by (rule introspectFields_hit)
  qed
  from now later show ?thesis by blast
qed

lemma plain_example_schema: "plain_server example_schema"
  by (simp add: plain_server_def example_schema_def comma_free_def)


theorem introspectFields_memoized_witness:
  "fst (introspectFields example_schema [''user''] (State Map.empty [])) = Inr [''id''] \<and>
   requests (snd (introspectFields example_schema [''user''] (State Map.empty []))) =
     [''Query'', ''User''] \<and>
   introspectFields (\<lambda>asked type. Raises HTTPError) [''user'']
       (snd (introspectFields example_schema [''user''] (State Map.empty []))) =
     (Inr [''id''], snd (introspectFields example_schema [''user''] (State Map.empty []))) \<and>
   introspectFields (\<lambda>asked type. Raises HTTPError) [''user'']
       (session example_schema [[''user'', ''id''], []]
          (snd (introspectFields example_schema [''user''] (State Map.empty [])))) =
     (Inr [''id''],
      session example_schema [[''user'', ''id''], []]
        (snd (introspectFields example_schema [''user''] (State Map.empty []))))"
proof -
  let ?first = "introspectFields example_schema [''user''] (State Map.empty [])"
  have result: "fst ?first = Inr [''id'']"
    by (simp add: introspectFields.simps fetchFields_def cached_fields_def example_schema_def)
  have asked: "requests (snd ?first) = [''Query'', ''User'']"
    by (simp add: introspectFields.simps fetchFields_def cached_fields_def example_schema_def)
  have first: "?first = (Inr [''id''], snd ?first)"
    using result by (simp add: prod_eq_iff)
  have start: "consistent_keys (populated (cache (State Map.empty [])))"
    by (simp add: consistent_empty)
  have path: "plain_path [''user'']"
    by (simp add: plain_path_def comma_free_def)
  have paths: "list_all plain_path [[''user'', ''id''], []]"
    by (simp add: plain_path_def comma_free_def)
  from introspectFields_memoized [OF first, of "\<lambda>asked type. Raises HTTPError" example_schema
      "[[''user'', ''id''], []]"]
    start plain_example_schema path paths result asked
  show ?thesis by blast
qed

section \<open>Theorems about \<open>introspectMutations\<close>\<close>

lemma introspectMutations_first:
  "introspectMutations (Fields fs) None = (Inr None, Some fs, [''Mutation''])"
  by (simp add: introspectMutations_def)

lemma introspectMutations_later:
  "introspectMutations srv (Some ms) = (Inr (Some ms), Some ms, [])"
  by (simp add: introspectMutations_def)

text \<open>
  Claim C2 says that every call returns the list of descriptors. The first call does not:
  with the cache still null and the server answering with the one mutation
  \<^verbatim>\<open>createUser(email, name, age)\<close>, the call sends the one request for the type
  \<^verbatim>\<open>Mutation\<close> and stores the list in the cache, and returns \<^verbatim>\<open>undefined\<close>. A call after it
  returns the stored list and sends nothing (\<open>introspectMutations_later\<close>).
\<close>

theorem introspectMutations_first_call_undefined:
  "introspectMutations
     (Fields [Mutation ''createUser'' [Arg ''email'', Arg ''name'', Arg ''age'']]) None =
   (Inr None,
    Some [Mutation ''createUser'' [Arg ''email'', Arg ''name'', Arg ''age'']],
    [''Mutation''])"
  by (simp add: introspectMutations_def)

section \<open>Theorems about \<open>buildMutation\<close>\<close>

lemma array_to_string_cases:
  "array_to_string args = [] \<or> hd (array_to_string args) = CHR ''[''"
proof (cases args)
  case Nil
  then show ?thesis by (simp add: array_to_string_def)
next
  case (Cons a as)
  then show ?thesis by (cases as) (simp_all add: array_to_string_def)
qed

lemma string_to_number_bracket:
  "s \<noteq> [] \<Longrightarrow> hd s = CHR ''['' \<Longrightarrow> string_to_number s = None"
  by (cases s) (simp_all add: string_to_number_def is_digit_def)

lemma string_to_number_array:
  "string_to_number (array_to_string args) = None \<or>
   string_to_number (array_to_string args) = Some 0"
proof (cases "array_to_string args = []")
  case True
  then show ?thesis by (simp add: string_to_number_def)
next
  case False
  with array_to_string_cases [of args] show ?thesis
    by (simp add: string_to_number_bracket)
qed

text \<open>The test \<^verbatim>\<open>mutation.args > 2\<close> is false for every argument list.\<close>

lemma array_never_greater: "\<not> array_greater args 2"
  using string_to_number_array [of args] by (auto simp: array_greater_def)

text \<open>So no run of the builder shows a multi-choice prompt.\<close>

lemma buildMutation_no_MultiSelect:
  "MultiSelect choices \<notin> set (snd (buildMutation mutations u))"
  by (auto simp: buildMutation_def fill_template_def array_never_greater split: option.splits)

text \<open>
  Whatever the number of arguments of the chosen descriptor, the prompts are the choice
  of the mutation and the snippet, whose template has a placeholder for every argument.
\<close>

lemma buildMutation_prompts:
  assumes "select u (map mutation_name ms) = Some n"
    and "find (\<lambda>it. mutation_name it = n) ms = Some m"
  shows "snd (buildMutation (Some ms) u) =
     [Select (map mutation_name ms),
      Snippet (template (mutation_name m) (map arg_name (mutation_args m)))
        (map arg_name (mutation_args m))]"
  using assms
  by (simp add: buildMutation_def fill_template_def array_never_greater split: option.splits)

text \<open>
  Claim C1 says that a descriptor with more than two arguments gets a multi-choice prompt
  over its argument names before the template is rendered. It does not: for the
  descriptor \<^verbatim>\<open>createUser(email, name, age)\<close> the builder shows the choice of the mutation
  and then the snippet, with all three arguments as placeholders, and no multi-choice
  prompt in between.
\<close>

theorem buildMutation_three_args:
  "buildMutation
     (Some [Mutation ''createUser'' [Arg ''email'', Arg ''name'', Arg ''age'']])
     (always ''createUser'') =
   (Inr (template ''createUser'' [''email'', ''name'', ''age'']),
    [Select [''createUser''],
     Snippet (template ''createUser'' [''email'', ''name'', ''age''])
       [''email'', ''name'', ''age'']])"
  by (simp add: buildMutation_def fill_template_def always_def array_never_greater)

section \<open>Theorems about \<open>executeMutation\<close>\<close>

lemma lookup_queryString:
  "lookup [(''mutationString'', m), (''name'', n), (''op'', Str op)] ''queryString'' =
     Inl ReferenceError"
  by (simp add: lookup_def module_declarations_def)

text \<open>The parameter that holds the text does resolve.\<close>

lemma lookup_mutationString:
  "lookup [(''mutationString'', m), (''name'', n), (''op'', Str op)] ''mutationString'' = Inr m"
  by (simp add: lookup_def)

text \<open>
  Claim C8. After a run that succeeded, the menu of the mutation session offers exactly
  \<^verbatim>\<open>edit\<close>, \<^verbatim>\<open>store\<close>, \<^verbatim>\<open>exit\<close> and \<^verbatim>\<open>new mutation\<close>; \<^verbatim>\<open>rerun\<close> is not among them. Choosing
  \<^verbatim>\<open>edit\<close> or \<^verbatim>\<open>store\<close> raises a \<open>ReferenceError\<close>, from the identifier \<^verbatim>\<open>queryString\<close>, before
  \<^verbatim>\<open>editMutation\<close> or \<^verbatim>\<open>storeMutation\<close> is called; \<^verbatim>\<open>exit\<close> returns, and \<^verbatim>\<open>new mutation\<close> goes
  on to \<^verbatim>\<open>buildMutation\<close>.
\<close>

theorem executeMutation_menu:
  assumes "fst (runQuery t) = Inr data"
    and "select u mutation_choices = Some op"
  shows "snd (executeMutation t u mutationString name) =
           [Select [''edit'', ''store'', ''exit'', ''new mutation'']] \<and>
         ''rerun'' \<notin> set mutation_choices \<and>
         (op = ''edit'' \<or> op = ''store'' \<longrightarrow>
            fst (executeMutation t u mutationString name) = Inl ReferenceError) \<and>
         (op = ''exit'' \<longrightarrow> fst (executeMutation t u mutationString name) = Inr Return) \<and>
         (op = ''new mutation'' \<longrightarrow>
            fst (executeMutation t u mutationString name) = Inr Call_buildMutation)"
proof -
  have shown: "snd (executeMutation t u mutationString name) = [Select mutation_choices]"
    using assms by (simp add: executeMutation_def)
  have result: "fst (executeMutation t u mutationString name) =
      after_menu [(''mutationString'', mutationString), (''name'', name), (''op'', Str op)] op"
    using assms by (simp add: executeMutation_def)
  have "after_menu [(''mutationString'', mutationString), (''name'', name), (''op'', Str op)] op =
      Inl ReferenceError" if "op = ''edit'' \<or> op = ''store''"
    using that by (auto simp: after_menu_def call2_def lookup_queryString)
  moreover have "after_menu scope ''exit'' = Inr Return" for scope
    by (simp add: after_menu_def)
  moreover have "after_menu scope ''new mutation'' = Inr Call_buildMutation" for scope
    by (simp add: after_menu_def)
  ultimately show ?thesis
    using shown result by (simp add: mutation_choices_def)
qed

theorem executeMutation_menu_witness:
  "executeMutation (Responded (Response 200 [] (Some (JObj [(''data'', JObj [])]))))
     (always ''edit'') (Str ''mutation { logout }'') Undefined =
     (Inl ReferenceError, [Select [''edit'', ''store'', ''exit'', ''new mutation'']]) \<and>
   executeMutation (Responded (Response 200 [] (Some (JObj [(''data'', JObj [])]))))
     (always ''exit'') (Str ''mutation { logout }'') Undefined =
     (Inr Return, [Select [''edit'', ''store'', ''exit'', ''new mutation'']])"
proof -
  let ?t = "Responded (Response 200 [] (Some (JObj [(''data'', JObj [])])))"
  have ran: "fst (runQuery ?t) = Inr (Some (JObj []))"
    by (simp add: runQuery_def ok_def check_result_def)
  have edit: "select (always ''edit'') mutation_choices = Some ''edit''"
    by (simp add: always_def)
  have exit: "select (always ''exit'') mutation_choices = Some ''exit''"
    by (simp add: always_def)
  show ?thesis
    using executeMutation_menu [OF ran edit, of "Str ''mutation { logout }''" Undefined]
      executeMutation_menu [OF ran exit, of "Str ''mutation { logout }''" Undefined]
    by (simp add: prod_eq_iff)
qed

section \<open>Theorems about the choice between query and mutation\<close>

lemma string_includes_iff:
  "string_includes s sub \<longleftrightarrow> (\<exists>before after. s = before @ sub @ after)"
proof (induction s)
  case Nil
  show ?case by auto
next
  case (Cons c s)
  show ?case
  proof
    assume "string_includes (c # s) sub"
    then consider "prefix sub (c # s)" | "string_includes s sub" by auto
    then show "\<exists>before after. c # s = before @ sub @ after"
    proof cases
      case 1
      then obtain after where "c # s = sub @ after" by (auto simp: prefix_def)
      then have "c # s = [] @ sub @ after" by simp
      then show ?thesis by blast
    next
      case 2
      with Cons.IH obtain before after where "s = before @ sub @ after" by blast
      then have "c # s = (c # before) @ sub @ after" by simp
      then show ?thesis by blast
    qed
  next
    assume "\<exists>before after. c # s = before @ sub @ after"
    then obtain before after where eq: "c # s = before @ sub @ after" by blast
    show "string_includes (c # s) sub"
    proof (cases before)
      case Nil
      with eq have "prefix sub (c # s)" by (simp add: prefix_def)
      then show ?thesis by simp
    next
      case (Cons b bs)
      with eq have "s = bs @ sub @ after" by simp
      with Cons.IH have "string_includes s sub" by blast
      then show ?thesis by simp
    qed
  qed
qed

text \<open>
  Claim C9. For every file content in which both \<^verbatim>\<open>query\<close> and \<^verbatim>\<open>mutation\<close> occur, at any
  position, the program takes the branch of the query: the test for \<^verbatim>\<open>query\<close> comes first.
  With the operation \<^verbatim>\<open>load\<close> the content goes to \<^verbatim>\<open>executeQuery\<close>, not to
  \<^verbatim>\<open>executeMutation\<close>.
\<close>

theorem dispatch_query_first:
  assumes "string_includes fileContent ''query''"
    and "string_includes fileContent ''mutation''"
  shows "dispatch op fileContent name = query_path op fileContent name \<and>
         dispatch ''load'' fileContent name = Inr (Run_executeQuery fileContent name)"
  using assms by (simp add: dispatch_def query_path_def)

theorem dispatch_query_first_witness:
  "string_includes ''mutation { saveQuery(query: 1) }'' ''query'' \<and>
   string_includes ''mutation { saveQuery(query: 1) }'' ''mutation'' \<and>
   dispatch ''load'' ''mutation { saveQuery(query: 1) }'' ''save'' =
     Inr (Run_executeQuery ''mutation { saveQuery(query: 1) }'' ''save'')"
proof -
  have q: "string_includes ''mutation { saveQuery(query: 1) }'' ''query''"
    by (simp add: prefix_def)
  have m: "string_includes ''mutation { saveQuery(query: 1) }'' ''mutation''"
    by (simp add: prefix_def)
  have "dispatch ''load'' ''mutation { saveQuery(query: 1) }'' ''save'' =
      Inr (Run_executeQuery ''mutation { saveQuery(query: 1) }'' ''save'')"
    using dispatch_query_first [OF q m, of "''load''" "''save''"] by (rule conjunct2)
  with q m show ?thesis by blast
qed

text \<open>A content with \<^verbatim>\<open>mutation\<close> and without \<^verbatim>\<open>query\<close> takes the other branch.\<close>

lemma dispatch_mutation:
  assumes "\<not> string_includes fileContent ''query''"
    and "string_includes fileContent ''mutation''"
  shows "dispatch op fileContent name = mutation_path op fileContent name"
  using assms by (simp add: dispatch_def)

end
